theory Spec2Isabelle
  imports Main "HOL-Library.AList"
begin

section \<open>Question answering over Ontotext GraphDB: the SPARQL repair loop\<close>

text \<open>
  A shallow embedding of \<^verbatim>\<open>OntotextGraphDBQAChain\<close>
  (\<^verbatim>\<open>langchain_community/chains/graph_qa/ontotext_graphdb.py\<close>): the entry point
  \<^verbatim>\<open>_call\<close>, the executor with its repair loop \<^verbatim>\<open>_execute_query\<close>, and the result
  formatter \<^verbatim>\<open>query_results_to_json\<close>.

  Python strings are modelled as \<open>string\<close>; a \<open>char\<close> stands for the code point of the
  same number (0 to 255). A Python \<^verbatim>\<open>dict\<close> with string keys and values is an association
  list in insertion order.
\<close>

type_synonym dict = "(string \<times> string) list"

subsection \<open>Result sets and their JSON rendering\<close>

text \<open>
  \<^verbatim>\<open>query_results.bindings\<close> is a \<^verbatim>\<open>List[Dict[str, Value]]\<close>; the formatter reads only
  the attribute \<^verbatim>\<open>.value\<close> of a \<^verbatim>\<open>Value\<close>. Each row is kept as the list that
  \<^verbatim>\<open>d.items()\<close> enumerates.
\<close>

record binding_value =
  v_value :: string

record query_result =
  bindings :: "(string \<times> binding_value) list list"

text \<open>
  The formatter accepts any of \<^verbatim>\<open>Bindings\<close>, \<^verbatim>\<open>QueryResult\<close> and
  \<^verbatim>\<open>ConvertResult\<close>, that is any object with a \<^verbatim>\<open>bindings\<close> attribute: an
  extension of the record.
\<close>

text \<open>
  \<^verbatim>\<open>json.dumps\<close> with its default arguments (\<^verbatim>\<open>ensure_ascii=True\<close>, separators
  \<^verbatim>\<open>', '\<close> and \<^verbatim>\<open>': '\<close>), on the values the formatter builds: a list of dictionaries
  from strings to strings. A string is escaped as \<^verbatim>\<open>py_encode_basestring_ascii\<close> does:
  the quote, the backslash and the five short escapes by name, every other character
  outside \<^verbatim>\<open>' '..'~'\<close> as \<^verbatim>\<open>\uXXXX\<close> in lower-case hexadecimal.
\<close>

definition hex_digit :: "nat \<Rightarrow> char" where
  "hex_digit n = ''0123456789abcdef'' ! (n mod 16)"

definition escape_char :: "char \<Rightarrow> string" where
  "escape_char c =
     (if c = CHR 0x5C then [CHR 0x5C, CHR 0x5C]
      else if c = CHR 0x22 then [CHR 0x5C, CHR 0x22]
      else if c = CHR 0x08 then [CHR 0x5C, CHR ''b'']
      else if c = CHR 0x0C then [CHR 0x5C, CHR ''f'']
      else if c = CHR 0x0A then [CHR 0x5C, CHR ''n'']
      else if c = CHR 0x0D then [CHR 0x5C, CHR ''r'']
      else if c = CHR 0x09 then [CHR 0x5C, CHR ''t'']
      else if (0x20::nat) \<le> of_char c \<and> (of_char c :: nat) \<le> 0x7E then [c]
      else [CHR 0x5C, CHR ''u'', CHR ''0'', CHR ''0'',
            hex_digit (of_char c div 16), hex_digit (of_char c mod 16)])"

definition encode_basestring_ascii :: "string \<Rightarrow> string" where
  "encode_basestring_ascii s = [CHR 0x22] @ concat (map escape_char s) @ [CHR 0x22]"

fun join :: "string \<Rightarrow> string list \<Rightarrow> string" where
  "join sep [] = []"
| "join sep [x] = x"
| "join sep (x # y # ys) = x @ sep @ join sep (y # ys)"

definition dumps_item :: "string \<times> string \<Rightarrow> string" where
  "dumps_item kv =
     encode_basestring_ascii (fst kv) @ '': '' @ encode_basestring_ascii (snd kv)"

definition dumps_dict :: "dict \<Rightarrow> string" where
  "dumps_dict d = ''{'' @ join '', '' (map dumps_item d) @ ''}''"

definition json_dumps :: "dict list \<Rightarrow> string" where
  "json_dumps xs = ''['' @ join '', '' (map dumps_dict xs) @ '']''"

text \<open>
  \<^verbatim>\<open>query_results_to_json\<close>: the comprehension
  \<^verbatim>\<open>[{k: v.value} for d in query_bindings for k, v in d.items()]\<close>, then \<^verbatim>\<open>json.dumps\<close>.
\<close>

definition query_results_to_json :: "'a query_result_scheme \<Rightarrow> string" where
  "query_results_to_json query_results =
     (let query_bindings = bindings query_results;
          res = [[(k, v_value v)]. d \<leftarrow> query_bindings, (k, v) \<leftarrow> d];
          query_results_str = json_dumps res
      in query_results_str)"

text \<open>
  The formatter as the specification words it: every row is replaced by one single-entry
  mapping per binding, rows in their order and bindings in their order within the row;
  the flat sequence is then serialised.
\<close>

definition single_entry :: "string \<times> binding_value \<Rightarrow> dict" where
  "single_entry b = [(fst b, v_value (snd b))]"

fun flatten_rows :: "(string \<times> binding_value) list list \<Rightarrow> dict list" where
  "flatten_rows [] = []"
| "flatten_rows (row # rows) = map single_entry row @ flatten_rows rows"

subsection \<open>Exceptions\<close>

text \<open>
  An exception raised by a collaborator is classified by the first \<^verbatim>\<open>except\<close> clause of
  \<^verbatim>\<open>_execute_query\<close> that matches it, in the order of the source: the five
  \<^verbatim>\<open>SPARQLWrapper\<close> classes, \<^verbatim>\<open>urllib.error.HTTPError\<close> (with its \<^verbatim>\<open>status\<close>), any
  other \<^verbatim>\<open>Exception\<close>, and a \<^verbatim>\<open>BaseException\<close> that no clause matches
  (\<^verbatim>\<open>KeyboardInterrupt\<close>, \<^verbatim>\<open>SystemExit\<close>). \<open>msg e\<close> is \<^verbatim>\<open>str(e)\<close>.
\<close>

datatype exc_class =
    QueryBadFormed
  | Unauthorized
  | EndPointNotFound
  | URITooLong
  | EndPointInternalError
  | HTTPError int
  | OtherException
  | NonException

datatype failure = Failure (cls: exc_class) (msg: string)

text \<open>
  What the module itself can raise: a collaborator's exception, passed on or re-raised;
  the \<^verbatim>\<open>KeyError\<close> of a subscript whose key is missing; the bare
  \<^verbatim>\<open>Exception\<close> of the last line of \<^verbatim>\<open>_execute_query\<close>.
\<close>

datatype exc = Raised failure | KeyError string | BareException

definition subscript :: "dict \<Rightarrow> string \<Rightarrow> exc + string" where
  "subscript d k = (case map_of d k of None \<Rightarrow> Inl (KeyError k) | Some v \<Rightarrow> Inr v)"

subsection \<open>Collaborators and the trace of a request\<close>

text \<open>
  The language-model chains and the graph endpoint are collaborators with state of their
  own. A call is recorded, with its arguments and its outcome, in the trace of the
  request; a collaborator answers from the trace so far and its arguments, so its answer
  may depend on everything that happened before. Every call of a collaborator returns or
  raises. \<^verbatim>\<open>_run_manager.on_text\<close> is instrumentation: its text is recorded and it
  returns; reading the schema (\<^verbatim>\<open>self.graph.get_schema\<close>) returns as well.
\<close>

datatype chain_role = Generation | Fix | Answer

datatype event =
    OnText string
  | ExecQuery string "failure + query_result"
  | Invoke chain_role dict "failure + dict"

record llm_chain =
  invoke :: "event list \<Rightarrow> dict \<Rightarrow> failure + dict"
  output_key :: string

record graph_db =
  exec_query :: "event list \<Rightarrow> string \<Rightarrow> failure + query_result"
  get_schema :: "event list \<Rightarrow> string"

text \<open>
  The fields of \<^verbatim>\<open>OntotextGraphDBQAChain\<close>. \<open>elapsed\<close> stands for the text of
  \<^verbatim>\<open>f"{time.time() - start:.2f}"\<close>, which only the last progress message shows.
\<close>

record qa_chain_obj =
  graph :: graph_db
  sparql_generation_chain :: llm_chain
  sparql_fix_chain :: llm_chain
  max_fix_retries :: int
  qa_chain :: llm_chain
  input_key :: string
  output_key_answer :: string
  output_key_generated_sparql :: string
  elapsed :: "event list \<Rightarrow> string"

definition on_text :: "event list \<Rightarrow> string \<Rightarrow> event list" where
  "on_text tr s = tr @ [OnText s]"

text \<open>Decimal rendering of an integer inside an f-string.\<close>

definition digit_char :: "nat \<Rightarrow> char" where
  "digit_char n = ''0123456789'' ! (n mod 10)"

function show_nat :: "nat \<Rightarrow> string" where
  "show_nat n = (if n < 10 then [digit_char n] else show_nat (n div 10) @ [digit_char n])"
  by pat_completeness auto
termination
  by (relation "measure id") auto

definition show_int :: "int \<Rightarrow> string" where
  "show_int i = (if i < 0 then CHR ''-'' # show_nat (nat (- i)) else show_nat (nat i))"

subsection \<open>The executor and its repair loop\<close>

text \<open>
  Where \<^verbatim>\<open>_execute_query\<close> left by an exception: the \<^verbatim>\<open>raise e\<close> before the loop
  (line 210), the \<^verbatim>\<open>raise e\<close> inside the loop (line 251), the \<^verbatim>\<open>raise e\<close> of one of
  the later clauses of the outer \<^verbatim>\<open>try\<close> (lines 260 to 301), an exception that no clause
  caught, or the final \<^verbatim>\<open>raise Exception\<close> (line 309).
\<close>

datatype raise_site =
    FirstBadFormed
  | BudgetExhausted
  | HandlerReraise
  | Propagated
  | SafetyNet

type_synonym exec_result = "(raise_site \<times> exc) + (string \<times> query_result)"

text \<open>
  The inner \<^verbatim>\<open>try\<close> block (lines 218 to 240): invoke the repair chain, read the
  repaired query under its output key, announce and execute it. It returns, or raises a
  \<^verbatim>\<open>QueryBadFormed\<close> that the inner clause catches (with the current value of
  \<^verbatim>\<open>generated_sparql\<close>), or raises something that the clause does not catch.
\<close>

datatype attempt =
    Returned string query_result
  | BadFormed failure string
  | Escaped exc

definition fix_inputs :: "string \<Rightarrow> string \<Rightarrow> string \<Rightarrow> dict" where
  "fix_inputs error_message generated_sparql ontology_schema =
     [(''error_message'', error_message),
      (''generated_sparql'', generated_sparql),
      (''schema'', ontology_schema)]"

definition repair_attempt ::
  "qa_chain_obj \<Rightarrow> string \<Rightarrow> string \<Rightarrow> string \<Rightarrow> event list \<Rightarrow> attempt \<times> event list" where
  "repair_attempt self ontology_schema error_message generated_sparql tr =
     (let args = fix_inputs error_message generated_sparql ontology_schema;
          r = invoke (sparql_fix_chain self) tr args;
          tr1 = tr @ [Invoke Fix args r]
      in case r of
           Inl e \<Rightarrow>
             (if cls e = QueryBadFormed then BadFormed e generated_sparql
              else Escaped (Raised e), tr1)
         | Inr d \<Rightarrow>
             (case subscript d (output_key (sparql_fix_chain self)) of
                Inl ke \<Rightarrow> (Escaped ke, tr1)
              | Inr q \<Rightarrow>
                  (let tr2 = on_text (on_text tr1 ''Generated query:'') q;
                       r2 = exec_query (graph self) tr2 q;
                       tr3 = tr2 @ [ExecQuery q r2]
                   in case r2 of
                        Inr res \<Rightarrow> (Returned q res, tr3)
                      | Inl e \<Rightarrow>
                          (if cls e = QueryBadFormed then BadFormed e q
                           else Escaped (Raised e), tr3))))"

text \<open>
  The two progress messages of the repair loop:
  \<^verbatim>\<open>f"Retrying to generate the query {retries}/{self.max_fix_retries}"\<close> and
  \<^verbatim>\<open>f"QueryBadFormed (status code 400): {error_message}"\<close>, where
  \<^verbatim>\<open>error_message\<close> is \<^verbatim>\<open>str(e)\<close>.
\<close>

definition retry_text :: "qa_chain_obj \<Rightarrow> int \<Rightarrow> string" where
  "retry_text self retries =
     ''Retrying to generate the query '' @ show_int retries @ ''/''
       @ show_int (max_fix_retries self)"

definition bad_text :: "failure \<Rightarrow> string" where
  "bad_text e = ''QueryBadFormed (status code 400): '' @ msg e"

text \<open>
  The \<^verbatim>\<open>while\<close> loop of lines 211 to 251 and, when its condition fails, the code after
  the \<^verbatim>\<open>try\<close> statement (lines 303 to 309).
\<close>

function repair_loop ::
  "qa_chain_obj \<Rightarrow> string \<Rightarrow> int \<Rightarrow> string \<Rightarrow> string \<Rightarrow> event list \<Rightarrow> exec_result \<times> event list" where
  "repair_loop self ontology_schema retries error_message generated_sparql tr =
     (if retries \<le> max_fix_retries self then
        (let tr1 = on_text tr (retry_text self retries)
         in case repair_attempt self ontology_schema error_message generated_sparql tr1 of
              (Returned q res, tr2) \<Rightarrow> (Inr (q, res), tr2)
            | (Escaped x, tr2) \<Rightarrow> (Inl (Propagated, x), tr2)
            | (BadFormed e q, tr2) \<Rightarrow>
                (let retries' = retries + 1;
                     error_message' = msg e;
                     tr3 = on_text tr2 (bad_text e)
                 in if retries' > max_fix_retries self
                    then (Inl (BudgetExhausted, Raised e), tr3)
                    else repair_loop self ontology_schema retries' error_message' q tr3))
      else (Inl (SafetyNet, BareException), on_text tr ''Unable to execute query''))"
  by pat_completeness auto
termination
  by (relation "measure (\<lambda>(self, s, retries, m, q, tr). nat (max_fix_retries self + 1 - retries))")
     auto

declare repair_loop.simps [simp del]

text \<open>\<^verbatim>\<open>_execute_query\<close>: the outer \<^verbatim>\<open>try\<close> statement with its clauses in order.\<close>

definition execute_query ::
  "qa_chain_obj \<Rightarrow> string \<Rightarrow> string \<Rightarrow> event list \<Rightarrow> exec_result \<times> event list" where
  "execute_query self generated_sparql ontology_schema tr =
     (let tr1 = on_text (on_text tr ''Generated query:'') generated_sparql;
          r = exec_query (graph self) tr1 generated_sparql;
          tr2 = tr1 @ [ExecQuery generated_sparql r]
      in case r of
           Inr res \<Rightarrow> (Inr (generated_sparql, res), tr2)
         | Inl e \<Rightarrow>
             (case cls e of
                QueryBadFormed \<Rightarrow>
                  (let retries = 1;
                       error_message = msg e;
                       tr3 = on_text tr2 (bad_text e)
                   in if retries > max_fix_retries self
                      then (Inl (FirstBadFormed, Raised e), tr3)
                      else repair_loop self ontology_schema retries error_message
                             generated_sparql tr3)
              | Unauthorized \<Rightarrow>
                  (Inl (HandlerReraise, Raised e),
                   on_text tr2 (''Unauthorized (status code 401): '' @ msg e))
              | EndPointNotFound \<Rightarrow>
                  (Inl (HandlerReraise, Raised e),
                   on_text tr2 (''EndPointNotFound (status code 404): '' @ msg e))
              | URITooLong \<Rightarrow>
                  (Inl (HandlerReraise, Raised e),
                   on_text tr2 (''URITooLong (status code 414): '' @ msg e))
              | EndPointInternalError \<Rightarrow>
                  (Inl (HandlerReraise, Raised e),
                   on_text tr2 (''EndPointInternalError (status code 500): '' @ msg e))
              | HTTPError status \<Rightarrow>
                  (Inl (HandlerReraise, Raised e),
                   on_text tr2 (''HTTPError (status code '' @ show_int status @ ''): '' @ msg e))
              | OtherException \<Rightarrow>
                  (Inl (HandlerReraise, Raised e),
                   on_text tr2 (''Exception: '' @ msg e))
              | NonException \<Rightarrow> (Inl (Propagated, Raised e), tr2)))"

subsection \<open>The entry point\<close>

text \<open>
  \<^verbatim>\<open>_call\<close>: read the question, fetch the schema, generate a query, execute it (with
  repair), format the rows, ask for the answer, and return both output keys. The result
  dictionary is built as the literal
  \<^verbatim>\<open>{self.output_key_answer: result, self.output_key_generated_sparql: ...}\<close> is: the
  second entry replaces the first when the two keys are equal.
\<close>

definition call :: "qa_chain_obj \<Rightarrow> dict \<Rightarrow> event list \<Rightarrow> (exc + dict) \<times> event list" where
  "call self inputs tr =
     (case subscript inputs (input_key self) of
        Inl ke \<Rightarrow> (Inl ke, tr)
      | Inr prompt \<Rightarrow>
          (let ontology_schema = get_schema (graph self) tr;
               tr1 = on_text (on_text tr ''User question:'') prompt;
               gen_args = [(''prompt'', prompt), (''schema'', ontology_schema)];
               g = invoke (sparql_generation_chain self) tr1 gen_args;
               tr2 = tr1 @ [Invoke Generation gen_args g]
           in case g of
                Inl e \<Rightarrow> (Inl (Raised e), tr2)
              | Inr sparql_generation_chain_result \<Rightarrow>
                  (case subscript sparql_generation_chain_result
                          (output_key (sparql_generation_chain self)) of
                     Inl ke \<Rightarrow> (Inl ke, tr2)
                   | Inr generated_sparql \<Rightarrow>
                       (case execute_query self generated_sparql ontology_schema tr2 of
                          (Inl (site, x), tr3) \<Rightarrow> (Inl x, tr3)
                        | (Inr (generated_valid_sparql, query_results), tr3) \<Rightarrow>
                            (let query_results_str = query_results_to_json query_results;
                                 tr4 = on_text (on_text tr3 ''Query results:'') query_results_str;
                                 qa_args = [(''prompt'', prompt), (''context'', query_results_str)];
                                 a = invoke (qa_chain self) tr4 qa_args;
                                 tr5 = tr4 @ [Invoke Answer qa_args a]
                             in case a of
                                  Inl e \<Rightarrow> (Inl (Raised e), tr5)
                                | Inr qa_chain_result \<Rightarrow>
                                    (case subscript qa_chain_result (output_key (qa_chain self)) of
                                       Inl ke \<Rightarrow> (Inl ke, tr5)
                                     | Inr result \<Rightarrow>
                                         (Inr (AList.update (output_key_generated_sparql self)
                                                 generated_valid_sparql
                                                 [(output_key_answer self, result)]),
                                          on_text tr5 (''Finished chain for '' @ elapsed self tr5
                                                       @ '' seconds''))))))))"

subsection \<open>Reading a trace\<close>

text \<open>
  The endpoint executions of a trace (query and outcome), the invocations of the repair
  chain and of the answer chain (inputs and outcome), each in the order they happened.
\<close>

fun exec_of :: "event \<Rightarrow> (string \<times> (failure + query_result)) list" where
  "exec_of (ExecQuery q r) = [(q, r)]"
| "exec_of ev = []"

fun fix_of :: "event \<Rightarrow> (dict \<times> (failure + dict)) list" where
  "fix_of (Invoke Fix args r) = [(args, r)]"
| "fix_of ev = []"

fun answer_of :: "event \<Rightarrow> (dict \<times> (failure + dict)) list" where
  "answer_of (Invoke Answer args r) = [(args, r)]"
| "answer_of ev = []"

definition executions :: "event list \<Rightarrow> (string \<times> (failure + query_result)) list" where
  "executions tr = concat (map exec_of tr)"

definition repairs :: "event list \<Rightarrow> (dict \<times> (failure + dict)) list" where
  "repairs tr = concat (map fix_of tr)"

definition answers :: "event list \<Rightarrow> (dict \<times> (failure + dict)) list" where
  "answers tr = concat (map answer_of tr)"

definition exec_calls :: "event list \<Rightarrow> nat" where
  "exec_calls tr = length (executions tr)"

definition fix_calls :: "event list \<Rightarrow> nat" where
  "fix_calls tr = length (repairs tr)"

definition answer_calls :: "event list \<Rightarrow> nat" where
  "answer_calls tr = length (answers tr)"

text \<open>
  The query that an outcome of the repair chain yields: the entry under the chain's
  output key, when the chain returned and the key is there.
\<close>

definition repaired_query :: "qa_chain_obj \<Rightarrow> failure + dict \<Rightarrow> string list" where
  "repaired_query self r =
     (case r of
        Inl e \<Rightarrow> []
      | Inr d \<Rightarrow> (case map_of d (output_key (sparql_fix_chain self)) of
                   None \<Rightarrow> []
                 | Some q \<Rightarrow> [q]))"

definition repaired_queries :: "qa_chain_obj \<Rightarrow> event list \<Rightarrow> string list" where
  "repaired_queries self tr = concat (map (\<lambda>p. repaired_query self (snd p)) (repairs tr))"

text \<open>An execution was rejected as malformed; every execution of a trace was.\<close>

definition malformed :: "failure + query_result \<Rightarrow> bool" where
  "malformed r = (case r of Inl e \<Rightarrow> cls e = QueryBadFormed | Inr res \<Rightarrow> False)"

definition all_malformed :: "event list \<Rightarrow> bool" where
  "all_malformed tr = list_all (\<lambda>p. malformed (snd p)) (executions tr)"

text \<open>Every invocation of the repair chain in a trace returned a repaired query.\<close>

definition all_repaired :: "qa_chain_obj \<Rightarrow> event list \<Rightarrow> bool" where
  "all_repaired self tr = list_all (\<lambda>p. repaired_query self (snd p) \<noteq> []) (repairs tr)"

text \<open>The events that a run, started on the trace \<open>tr\<close>, added to it.\<close>

definition events_added :: "event list \<Rightarrow> 'a \<times> event list \<Rightarrow> event list" where
  "events_added tr run = drop (length tr) (snd run)"

subsection \<open>Example collaborators\<close>

text \<open>
  Small collaborators on which the properties below are exercised: an endpoint that
  rejects every query as malformed, one that accepts a single query, one that always
  fails in a given way; a chain that answers with a fixed text, one that appends
  \<open>+\<close> to the query it is asked to repair, and one that always raises.
\<close>

definition rejecting_graph :: graph_db where
  "rejecting_graph =
     \<lparr>exec_query = (\<lambda>tr q. Inl (Failure QueryBadFormed (''bad: '' @ q))),
      get_schema = (\<lambda>tr. ''S'')\<rparr>"

definition accepting_graph :: "string \<Rightarrow> query_result \<Rightarrow> graph_db" where
  "accepting_graph good rows =
     \<lparr>exec_query = (\<lambda>tr q. if q = good then Inr rows
                            else Inl (Failure QueryBadFormed (''bad: '' @ q))),
      get_schema = (\<lambda>tr. ''S'')\<rparr>"

definition failing_graph :: "failure \<Rightarrow> graph_db" where
  "failing_graph e = \<lparr>exec_query = (\<lambda>tr q. Inl e), get_schema = (\<lambda>tr. ''S'')\<rparr>"

definition const_chain :: "string \<Rightarrow> llm_chain" where
  "const_chain out = \<lparr>invoke = (\<lambda>tr args. Inr [(''text'', out)]), output_key = ''text''\<rparr>"

definition appending_chain :: llm_chain where
  "appending_chain =
     \<lparr>invoke = (\<lambda>tr args. case map_of args ''generated_sparql'' of
                             None \<Rightarrow> Inr []
                           | Some q \<Rightarrow> Inr [(''text'', q @ ''+'')]),
      output_key = ''text''\<rparr>"

definition raising_chain :: "failure \<Rightarrow> llm_chain" where
  "raising_chain e = \<lparr>invoke = (\<lambda>tr args. Inl e), output_key = ''text''\<rparr>"

definition example_chain :: "graph_db \<Rightarrow> llm_chain \<Rightarrow> int \<Rightarrow> qa_chain_obj" where
  "example_chain g fix_chain n =
     \<lparr>graph = g,
      sparql_generation_chain = const_chain ''Q'',
      sparql_fix_chain = fix_chain,
      max_fix_retries = n,
      qa_chain = const_chain ''42'',
      input_key = ''question'',
      output_key_answer = ''answer'',
      output_key_generated_sparql = ''generated_sparql'',
      elapsed = (\<lambda>tr. ''0.00'')\<rparr>"

section \<open>Properties\<close>

subsection \<open>Traces\<close>

lemma executions_simps [simp]:
  "executions [] = []"
  "executions (a @ b) = executions a @ executions b"
  "executions (ev # tr) = exec_of ev @ executions tr"
  by (simp_all add: executions_def)

lemma repairs_simps [simp]:
  "repairs [] = []"
  "repairs (a @ b) = repairs a @ repairs b"
  "repairs (ev # tr) = fix_of ev @ repairs tr"
  by (simp_all add: repairs_def)

lemma answers_simps [simp]:
  "answers [] = []"
  "answers (a @ b) = answers a @ answers b"
  "answers (ev # tr) = answer_of ev @ answers tr"
  by (simp_all add: answers_def)

lemma repaired_queries_simps [simp]:
  "repaired_queries self [] = []"
  "repaired_queries self (a @ b) = repaired_queries self a @ repaired_queries self b"
  by (simp_all add: repaired_queries_def)

subsection \<open>The repair loop, case by case\<close>

lemma repair_attempt_cases [case_names FixBad FixEscape NoKey Returned ExecBad ExecEscape]:
  obtains
    (FixBad) e where "cls e = QueryBadFormed"
      "repair_attempt self s m q tr = (BadFormed e q, tr @ [Invoke Fix (fix_inputs m q s) (Inl e)])"
  | (FixEscape) e where "cls e \<noteq> QueryBadFormed"
      "repair_attempt self s m q tr =
         (Escaped (Raised e), tr @ [Invoke Fix (fix_inputs m q s) (Inl e)])"
  | (NoKey) d where "map_of d (output_key (sparql_fix_chain self)) = None"
      "repair_attempt self s m q tr =
         (Escaped (KeyError (output_key (sparql_fix_chain self))),
          tr @ [Invoke Fix (fix_inputs m q s) (Inr d)])"
  | (Returned) d q' rows where "map_of d (output_key (sparql_fix_chain self)) = Some q'"
      "repair_attempt self s m q tr =
         (Returned q' rows,
          tr @ [Invoke Fix (fix_inputs m q s) (Inr d), OnText ''Generated query:'', OnText q',
                ExecQuery q' (Inr rows)])"
  | (ExecBad) d q' e where "map_of d (output_key (sparql_fix_chain self)) = Some q'"
      "cls e = QueryBadFormed"
      "repair_attempt self s m q tr =
         (BadFormed e q',
          tr @ [Invoke Fix (fix_inputs m q s) (Inr d), OnText ''Generated query:'', OnText q',
                ExecQuery q' (Inl e)])"
  | (ExecEscape) d q' e where "map_of d (output_key (sparql_fix_chain self)) = Some q'"
      "cls e \<noteq> QueryBadFormed"
      "repair_attempt self s m q tr =
         (Escaped (Raised e),
          tr @ [Invoke Fix (fix_inputs m q s) (Inr d), OnText ''Generated query:'', OnText q',
                ExecQuery q' (Inl e)])"
proof (cases "invoke (sparql_fix_chain self) tr (fix_inputs m q s)")
  case (Inl e)
  then show ?thesis
    using FixBad [of e] FixEscape [of e]
    by (cases "cls e = QueryBadFormed") (simp_all add: repair_attempt_def)
next
  case ok: (Inr d)
  show ?thesis
  proof (cases "map_of d (output_key (sparql_fix_chain self))")
    case None
    with ok show ?thesis
      using NoKey [of d] by (simp add: repair_attempt_def subscript_def)
  next
    case (Some q')
    let ?tr2 = "on_text (on_text (tr @ [Invoke Fix (fix_inputs m q s) (Inr d)])
                  ''Generated query:'') q'"
    show ?thesis
    proof (cases "exec_query (graph self) ?tr2 q'")
      case (Inr rows)
      with ok Some show ?thesis
        using Returned [of d q' rows]
        by (simp add: repair_attempt_def subscript_def on_text_def)
    next
      case (Inl e)
      with ok Some show ?thesis
        using ExecBad [of d q' e] ExecEscape [of d q' e]
        by (cases "cls e = QueryBadFormed")
           (simp_all add: repair_attempt_def subscript_def on_text_def)
    qed
  qed
qed

lemma repair_loop_cases
  [consumes 1, case_names Returned FixEscape NoKey ExecEscape FixBadLast FixBadNext
     ExecBadLast ExecBadNext]:
  assumes "retries \<le> max_fix_retries self"
  obtains
    (Returned) d q' rows where "map_of d (output_key (sparql_fix_chain self)) = Some q'"
      "repair_loop self s retries m q tr =
         (Inr (q', rows),
          tr @ [OnText (retry_text self retries), Invoke Fix (fix_inputs m q s) (Inr d),
                OnText ''Generated query:'', OnText q', ExecQuery q' (Inr rows)])"
  | (FixEscape) e where "cls e \<noteq> QueryBadFormed"
      "repair_loop self s retries m q tr =
         (Inl (Propagated, Raised e),
          tr @ [OnText (retry_text self retries), Invoke Fix (fix_inputs m q s) (Inl e)])"
  | (NoKey) d where "map_of d (output_key (sparql_fix_chain self)) = None"
      "repair_loop self s retries m q tr =
         (Inl (Propagated, KeyError (output_key (sparql_fix_chain self))),
          tr @ [OnText (retry_text self retries), Invoke Fix (fix_inputs m q s) (Inr d)])"
  | (ExecEscape) d q' e where "map_of d (output_key (sparql_fix_chain self)) = Some q'"
      "cls e \<noteq> QueryBadFormed"
      "repair_loop self s retries m q tr =
         (Inl (Propagated, Raised e),
          tr @ [OnText (retry_text self retries), Invoke Fix (fix_inputs m q s) (Inr d),
                OnText ''Generated query:'', OnText q', ExecQuery q' (Inl e)])"
  | (FixBadLast) e where "cls e = QueryBadFormed" "retries + 1 > max_fix_retries self"
      "repair_loop self s retries m q tr =
         (Inl (BudgetExhausted, Raised e),
          tr @ [OnText (retry_text self retries), Invoke Fix (fix_inputs m q s) (Inl e),
                OnText (bad_text e)])"
  | (FixBadNext) e where "cls e = QueryBadFormed" "retries + 1 \<le> max_fix_retries self"
      "repair_loop self s retries m q tr =
         repair_loop self s (retries + 1) (msg e) q
           (tr @ [OnText (retry_text self retries), Invoke Fix (fix_inputs m q s) (Inl e),
                  OnText (bad_text e)])"
  | (ExecBadLast) d q' e where "map_of d (output_key (sparql_fix_chain self)) = Some q'"
      "cls e = QueryBadFormed" "retries + 1 > max_fix_retries self"
      "repair_loop self s retries m q tr =
         (Inl (BudgetExhausted, Raised e),
          tr @ [OnText (retry_text self retries), Invoke Fix (fix_inputs m q s) (Inr d),
                OnText ''Generated query:'', OnText q', ExecQuery q' (Inl e),
                OnText (bad_text e)])"
  | (ExecBadNext) d q' e where "map_of d (output_key (sparql_fix_chain self)) = Some q'"
      "cls e = QueryBadFormed" "retries + 1 \<le> max_fix_retries self"
      "repair_loop self s retries m q tr =
         repair_loop self s (retries + 1) (msg e) q'
           (tr @ [OnText (retry_text self retries), Invoke Fix (fix_inputs m q s) (Inr d),
                  OnText ''Generated query:'', OnText q', ExecQuery q' (Inl e),
                  OnText (bad_text e)])"
proof -
  let ?tr1 = "tr @ [OnText (retry_text self retries)]"
  have unfold: "repair_loop self s retries m q tr =
      (case repair_attempt self s m q ?tr1 of
         (Returned q' rows, tr2) \<Rightarrow> (Inr (q', rows), tr2)
       | (Escaped x, tr2) \<Rightarrow> (Inl (Propagated, x), tr2)
       | (BadFormed e q', tr2) \<Rightarrow>
           (if retries + 1 > max_fix_retries self
            then (Inl (BudgetExhausted, Raised e), tr2 @ [OnText (bad_text e)])
            else repair_loop self s (retries + 1) (msg e) q' (tr2 @ [OnText (bad_text e)])))"
    using assms
    by (subst repair_loop.simps)
       (simp add: on_text_def retry_text_def bad_text_def Let_def split: attempt.splits prod.splits)
  show ?thesis
  proof (cases rule: repair_attempt_cases [of self s m q ?tr1])
    case (FixBad e)
    then show ?thesis
      using FixBadLast [of e] FixBadNext [of e] unfold
      by (cases "retries + 1 > max_fix_retries self") simp_all
  next
    case (FixEscape e)
    then show ?thesis using that(2) [of e] unfold by simp
  next
    case (NoKey d)
    then show ?thesis using that(3) [of d] unfold by simp
  next
    case (Returned d q' rows)
    then show ?thesis using that(1) [of d q' rows] unfold by simp
  next
    case (ExecBad d q' e)
    then show ?thesis
      using ExecBadLast [of d q' e] ExecBadNext [of d q' e] unfold
      by (cases "retries + 1 > max_fix_retries self") simp_all
  next
    case (ExecEscape d q' e)
    then show ?thesis using that(4) [of d q' e] unfold by simp
  qed
qed


lemma budget_induct [consumes 1, case_names step]:
  fixes retries N :: int
  assumes "retries \<le> N"
    and "\<And>r. r \<le> N \<Longrightarrow> (r + 1 \<le> N \<Longrightarrow> P (r + 1)) \<Longrightarrow> P r"
  shows "P retries"
  using assms(1)
proof (induction "nat (N - retries)" arbitrary: retries)
  case 0
  then show ?case using assms(2) [of retries] by simp
next
  case (Suc n)
  then have "P (retries + 1)" by simp
  with Suc.prems show ?case using assms(2) [of retries] by simp
qed

lemma repair_loop_prefix:
  assumes "retries \<le> max_fix_retries self"
  shows "\<exists>new. snd (repair_loop self s retries m q tr) = tr @ new"
  using assms
proof (induction retries arbitrary: m q tr rule: budget_induct)
  case (step r)
  from step.hyps show ?case
  proof (cases rule: repair_loop_cases [where s=s and m=m and q=q and tr=tr])
    case (FixBadNext e)
    from step.IH [OF FixBadNext(2)] FixBadNext(3) show ?thesis
      by (metis append.assoc)
  next
    case (ExecBadNext d q' e)
    from step.IH [OF ExecBadNext(3)] ExecBadNext(4) show ?thesis
      by (metis append.assoc)
  qed simp_all
qed

lemma run_split:
  assumes "snd run = (tr @ pre) @ new'" and "run = (res, tr @ new)"
  shows "new = pre @ new'" and "run = (res, (tr @ pre) @ new')"
proof -
  from assms have "tr @ new = tr @ (pre @ new')"
    by (cases run) simp
  then show "new = pre @ new'"
    by (simp only: same_append_eq)
  with assms(2) show "run = (res, (tr @ pre) @ new')"
    by simp
qed

lemma repair_loop_continues:
  assumes "r + 1 \<le> max_fix_retries self"
    and "repair_loop self s r m q tr = repair_loop self s (r + 1) m' q' (tr @ pre)"
    and "repair_loop self s r m q tr = (res, tr @ new)"
  obtains new' where "new = pre @ new'"
    "repair_loop self s (r + 1) m' q' (tr @ pre) = (res, (tr @ pre) @ new')"
proof -
  obtain new' where "snd (repair_loop self s (r + 1) m' q' (tr @ pre)) = (tr @ pre) @ new'"
    using repair_loop_prefix [OF assms(1)] by blast
  moreover have "repair_loop self s (r + 1) m' q' (tr @ pre) = (res, tr @ new)"
    using assms(2,3) by (simp only:)
  ultimately have "new = pre @ new'"
    "repair_loop self s (r + 1) m' q' (tr @ pre) = (res, (tr @ pre) @ new')"
    by (rule run_split)+
  then show ?thesis using that by blast
qed

lemma trace_event_simps [simp]:
  "exec_calls [] = 0" "exec_calls (a @ b) = exec_calls a + exec_calls b"
  "fix_calls [] = 0" "fix_calls (a @ b) = fix_calls a + fix_calls b"
  "answer_calls [] = 0" "answer_calls (a @ b) = answer_calls a + answer_calls b"
  by (simp_all add: exec_calls_def fix_calls_def answer_calls_def)

lemma repaired_queries_Cons [simp]:
  "repaired_queries self (OnText t # tr) = repaired_queries self tr"
  "repaired_queries self (ExecQuery q r # tr) = repaired_queries self tr"
  "repaired_queries self (Invoke Fix args r' # tr) = repaired_query self r' @ repaired_queries self tr"
  by (simp_all add: repaired_queries_def)

lemma repaired_query_simps [simp]:
  "repaired_query self (Inl e) = []"
  "map_of d (output_key (sparql_fix_chain self)) = None \<Longrightarrow> repaired_query self (Inr d) = []"
  "map_of d (output_key (sparql_fix_chain self)) = Some q \<Longrightarrow> repaired_query self (Inr d) = [q]"
  by (simp_all add: repaired_query_def)

lemma repair_loop_invariants:
  assumes "retries \<le> max_fix_retries self"
    and "repair_loop self s retries m q tr = (res, tr @ new)"
  shows "fix_calls new \<le> nat (max_fix_retries self + 1 - retries)
       \<and> exec_calls new \<le> fix_calls new
       \<and> map fst (executions new) = repaired_queries self new
       \<and> answers new = []
       \<and> (\<forall>x. res \<noteq> Inl (SafetyNet, x))"
  using assms
proof (induction retries arbitrary: m q tr new rule: budget_induct)
  case (step r)
  from step.hyps show ?case
  proof (cases rule: repair_loop_cases [where s=s and m=m and q=q and tr=tr])
    case (FixBadNext e)
    from repair_loop_continues [OF FixBadNext(2,3) step.prems]
    obtain new' where new': "new = [OnText (retry_text self r), Invoke Fix (fix_inputs m q s) (Inl e),
                  OnText (bad_text e)] @ new'"
      and run: "repair_loop self s (r + 1) (msg e) q
           (tr @ [OnText (retry_text self r), Invoke Fix (fix_inputs m q s) (Inl e),
                  OnText (bad_text e)]) = (res, (tr @ [OnText (retry_text self r), Invoke Fix (fix_inputs m q s) (Inl e),
                  OnText (bad_text e)]) @ new')" by blast
    from step.IH [OF FixBadNext(2) run] new' FixBadNext(2) show ?thesis
      by (auto simp: exec_calls_def fix_calls_def)
  next
    case (ExecBadNext d q' e)
    from repair_loop_continues [OF ExecBadNext(3,4) step.prems]
    obtain new' where new': "new = [OnText (retry_text self r), Invoke Fix (fix_inputs m q s) (Inr d),
                  OnText ''Generated query:'', OnText q', ExecQuery q' (Inl e),
                  OnText (bad_text e)] @ new'"
      and run: "repair_loop self s (r + 1) (msg e) q'
           (tr @ [OnText (retry_text self r), Invoke Fix (fix_inputs m q s) (Inr d),
                  OnText ''Generated query:'', OnText q', ExecQuery q' (Inl e),
                  OnText (bad_text e)]) = (res, (tr @ [OnText (retry_text self r), Invoke Fix (fix_inputs m q s) (Inr d),
                  OnText ''Generated query:'', OnText q', ExecQuery q' (Inl e),
                  OnText (bad_text e)]) @ new')" by blast
    from step.IH [OF ExecBadNext(3) run] new' ExecBadNext(1,3) show ?thesis
      by (auto simp: exec_calls_def fix_calls_def)
  qed (use step.prems step.hyps in \<open>auto simp: exec_calls_def fix_calls_def\<close>)
qed

subsection \<open>The executor, case by case\<close>

lemma execute_query_cases [case_names Returned Other NoBudget Loop]:
  obtains
    (Returned) rows where
      "execute_query self q s tr =
         (Inr (q, rows), tr @ [OnText ''Generated query:'', OnText q, ExecQuery q (Inr rows)])"
  | (Other) e site log where "cls e \<noteq> QueryBadFormed"
      "site = HandlerReraise \<or> site = Propagated"
      "executions log = []" "repairs log = []" "answers log = []"
      "execute_query self q s tr =
         (Inl (site, Raised e),
          tr @ [OnText ''Generated query:'', OnText q, ExecQuery q (Inl e)] @ log)"
  | (NoBudget) e where "cls e = QueryBadFormed" "max_fix_retries self < 1"
      "execute_query self q s tr =
         (Inl (FirstBadFormed, Raised e),
          tr @ [OnText ''Generated query:'', OnText q, ExecQuery q (Inl e), OnText (bad_text e)])"
  | (Loop) e where "cls e = QueryBadFormed" "1 \<le> max_fix_retries self"
      "execute_query self q s tr =
         repair_loop self s 1 (msg e) q
           (tr @ [OnText ''Generated query:'', OnText q, ExecQuery q (Inl e), OnText (bad_text e)])"
proof (cases "exec_query (graph self) (tr @ [OnText ''Generated query:'', OnText q]) q")
  case (Inr rows)
  then show ?thesis
    using Returned [of rows] by (simp add: execute_query_def on_text_def)
next
  case (Inl e)
  show ?thesis
  proof (cases "cls e")
    case QueryBadFormed
    with Inl show ?thesis
      using NoBudget [of e] Loop [of e]
      by (cases "max_fix_retries self < 1") (simp_all add: execute_query_def on_text_def)
  next
    case NonException
    with Inl show ?thesis
      using Other [of e Propagated "[]"] by (simp add: execute_query_def on_text_def)
  next
    case Unauthorized
    with Inl show ?thesis
      using Other [of e HandlerReraise "[OnText (''Unauthorized (status code 401): '' @ msg e)]"]
      by (simp add: execute_query_def on_text_def)
  next
    case EndPointNotFound
    with Inl show ?thesis
      using Other [of e HandlerReraise "[OnText (''EndPointNotFound (status code 404): '' @ msg e)]"]
      by (simp add: execute_query_def on_text_def)
  next
    case URITooLong
    with Inl show ?thesis
      using Other [of e HandlerReraise "[OnText (''URITooLong (status code 414): '' @ msg e)]"]
      by (simp add: execute_query_def on_text_def)
  next
    case EndPointInternalError
    with Inl show ?thesis
      using Other [of e HandlerReraise
                     "[OnText (''EndPointInternalError (status code 500): '' @ msg e)]"]
      by (simp add: execute_query_def on_text_def)
  next
    case (HTTPError status)
    with Inl show ?thesis
      using Other [of e HandlerReraise
                     "[OnText (''HTTPError (status code '' @ show_int status @ ''): '' @ msg e)]"]
      by (simp add: execute_query_def on_text_def)
  next
    case OtherException
    with Inl show ?thesis
      using Other [of e HandlerReraise "[OnText (''Exception: '' @ msg e)]"]
      by (simp add: execute_query_def on_text_def)
  qed
qed

lemma execute_query_prefix: "\<exists>new. snd (execute_query self q s tr) = tr @ new"
proof (cases rule: execute_query_cases [of self q s tr])
  case (Loop e)
  then show ?thesis
    using repair_loop_prefix [of 1 self s "msg e" q
            "tr @ [OnText ''Generated query:'', OnText q, ExecQuery q (Inl e), OnText (bad_text e)]"]
    by (metis append.assoc)
qed simp_all

lemma execute_query_loop_split:
  assumes "1 \<le> max_fix_retries self"
    and "execute_query self q s tr = repair_loop self s 1 m q (tr @ pre)"
    and "execute_query self q s tr = (res, tr @ new)"
  obtains new' where "new = pre @ new'"
    "repair_loop self s 1 m q (tr @ pre) = (res, (tr @ pre) @ new')"
proof -
  obtain new' where "snd (repair_loop self s 1 m q (tr @ pre)) = (tr @ pre) @ new'"
    using repair_loop_prefix [OF assms(1)] by blast
  moreover have "repair_loop self s 1 m q (tr @ pre) = (res, tr @ new)"
    using assms(2,3) by (simp only:)
  ultimately have "new = pre @ new'"
    "repair_loop self s 1 m q (tr @ pre) = (res, (tr @ pre) @ new')"
    by (rule run_split)+
  then show ?thesis using that by blast
qed

lemma repaired_queries_no_repairs [simp]:
  "repairs tr = [] \<Longrightarrow> repaired_queries self tr = []"
  by (simp add: repaired_queries_def)

lemma execute_query_invariants:
 assumes "execute_query self q s tr = (res, tr @ new)"
  shows "fix_calls new \<le> nat (max_fix_retries self)
       \<and> exec_calls new \<le> fix_calls new + 1
       \<and> map fst (executions new) = q # repaired_queries self new
       \<and> answers new = []
       \<and> (\<forall>x. res \<noteq> Inl (SafetyNet, x))"
proof (cases rule: execute_query_cases [of self q s tr])
  case (Loop e)
  from execute_query_loop_split [OF Loop(2,3) assms]
  obtain new' where new': "new = [OnText ''Generated query:'', OnText q, ExecQuery q (Inl e), OnText (bad_text e)] @ new'"
    and run: "repair_loop self s 1 (msg e) q (tr @ [OnText ''Generated query:'', OnText q, ExecQuery q (Inl e), OnText (bad_text e)])
       = (res, (tr @ [OnText ''Generated query:'', OnText q, ExecQuery q (Inl e), OnText (bad_text e)]) @ new')"
    by blast
  from repair_loop_invariants [OF Loop(2) run] new' show ?thesis
    by (auto simp: exec_calls_def fix_calls_def)
qed (use assms in \<open>auto simp: exec_calls_def fix_calls_def\<close>)

subsection \<open>Runs of the repair loop\<close>

lemma malformed_simps [simp]:
  "malformed (Inl e) = (cls e = QueryBadFormed)"
  "malformed (Inr rows) = False"
  by (simp_all add: malformed_def)

lemma all_malformed_simps [simp]:
  "all_malformed [] = True"
  "all_malformed (a @ b) = (all_malformed a \<and> all_malformed b)"
  "all_malformed (OnText t # tr) = all_malformed tr"
  "all_malformed (Invoke role args r' # tr) = all_malformed tr"
  "all_malformed (ExecQuery q r # tr) = (malformed r \<and> all_malformed tr)"
  by (simp_all add: all_malformed_def)

lemma all_repaired_simps [simp]:
  "all_repaired self [] = True"
  "all_repaired self (a @ b) = (all_repaired self a \<and> all_repaired self b)"
  "all_repaired self (OnText t # tr) = all_repaired self tr"
  "all_repaired self (ExecQuery q r # tr) = all_repaired self tr"
  "all_repaired self (Invoke Fix args r' # tr) = (repaired_query self r' \<noteq> [] \<and> all_repaired self tr)"
  "all_repaired self (Invoke Generation args r' # tr) = all_repaired self tr"
  "all_repaired self (Invoke Answer args r' # tr) = all_repaired self tr"
  by (simp_all add: all_repaired_def)



lemma repair_loop_fix_failure:
  assumes "retries \<le> max_fix_retries self"
    and "repair_loop self s retries m q tr = (res, tr @ new)"
    and "(args, Inl e) \<in> set (repairs new)" and "cls e \<noteq> QueryBadFormed"
  shows "res = Inl (Propagated, Raised e) \<and> last new = Invoke Fix args (Inl e)"
  using assms
proof (induction retries arbitrary: m q tr new rule: budget_induct)
  case (step r)
  from step.hyps show ?case
  proof (cases rule: repair_loop_cases [where s=s and m=m and q=q and tr=tr])
    case (FixBadNext e')
    let ?pre = "[OnText (retry_text self r), Invoke Fix (fix_inputs m q s) (Inl e'),
                 OnText (bad_text e')]"
    from repair_loop_continues [OF FixBadNext(2,3) step.prems(1)]
    obtain new' where new': "new = ?pre @ new'"
      and run: "repair_loop self s (r + 1) (msg e') q (tr @ ?pre) = (res, (tr @ ?pre) @ new')"
      by blast
    from step.prems(2,3) new' FixBadNext(1)
    have mem: "(args, Inl e) \<in> set (repairs new')"
      by auto
    then have "new' \<noteq> []" by auto
    with step.IH [OF FixBadNext(2) run mem step.prems(3)] new' show ?thesis
      by simp
  next
    case (ExecBadNext d q' e')
    let ?pre = "[OnText (retry_text self r), Invoke Fix (fix_inputs m q s) (Inr d),
                 OnText ''Generated query:'', OnText q', ExecQuery q' (Inl e'),
                 OnText (bad_text e')]"
    from repair_loop_continues [OF ExecBadNext(3,4) step.prems(1)]
    obtain new' where new': "new = ?pre @ new'"
      and run: "repair_loop self s (r + 1) (msg e') q' (tr @ ?pre) = (res, (tr @ ?pre) @ new')"
      by blast
    from step.prems(2,3) new'
    have mem: "(args, Inl e) \<in> set (repairs new')"
      by auto
    then have "new' \<noteq> []" by auto
    with step.IH [OF ExecBadNext(3) run mem step.prems(3)] new' show ?thesis
      by simp
  qed (use step.prems in \<open>auto\<close>)
qed

subsection \<open>Runs of the executor\<close>



lemma execute_query_fix_failure:
  assumes "execute_query self q s tr = (res, tr @ new)"
    and "(args, Inl e) \<in> set (repairs new)" and "cls e \<noteq> QueryBadFormed"
  shows "res = Inl (Propagated, Raised e) \<and> last new = Invoke Fix args (Inl e)"
proof (cases rule: execute_query_cases [of self q s tr])
  case (Loop e')
  let ?pre = "[OnText ''Generated query:'', OnText q, ExecQuery q (Inl e'), OnText (bad_text e')]"
  from execute_query_loop_split [OF Loop(2,3) assms(1)]
  obtain new' where new': "new = ?pre @ new'"
    and run: "repair_loop self s 1 (msg e') q (tr @ ?pre) = (res, (tr @ ?pre) @ new')"
    by blast
  from assms(2) new' have mem: "(args, Inl e) \<in> set (repairs new')"
    by simp
  then have "new' \<noteq> []" by auto
  with repair_loop_fix_failure [OF Loop(2) run mem assms(3)] new' show ?thesis
    by simp
qed (use assms in \<open>auto\<close>)



subsection \<open>The entry point, case by case\<close>

lemma no_executions_all_malformed [simp]: "executions tr = [] \<Longrightarrow> all_malformed tr"
  by (simp add: all_malformed_def)

lemma no_repairs_all_repaired [simp]: "repairs tr = [] \<Longrightarrow> all_repaired self tr"
  by (simp add: all_repaired_def)

lemma call_cases [case_names NoQuery ExecRaises AnswerFails AnswerNoKey Answered]:
  obtains
    (NoQuery) x pre where "executions pre = []" "repairs pre = []" "answers pre = []"
      "call self inputs tr = (Inl x, tr @ pre)"
  | (ExecRaises) q site x pre new_e where
      "executions pre = []" "repairs pre = []" "answers pre = []"
      "execute_query self q (get_schema (graph self) tr) (tr @ pre)
         = (Inl (site, x), (tr @ pre) @ new_e)"
      "call self inputs tr = (Inl x, tr @ pre @ new_e)"
  | (AnswerFails) q qv rows pre new_e qa_args e post where
      "executions pre = []" "repairs pre = []" "answers pre = []"
      "execute_query self q (get_schema (graph self) tr) (tr @ pre)
         = (Inr (qv, rows), (tr @ pre) @ new_e)"
      "executions post = []" "repairs post = []" "answers post = [(qa_args, Inl e)]"
      "call self inputs tr = (Inl (Raised e), tr @ pre @ new_e @ post)"
  | (AnswerNoKey) q qv rows pre new_e qa_args ad post where
      "executions pre = []" "repairs pre = []" "answers pre = []"
      "execute_query self q (get_schema (graph self) tr) (tr @ pre)
         = (Inr (qv, rows), (tr @ pre) @ new_e)"
      "executions post = []" "repairs post = []" "answers post = [(qa_args, Inr ad)]"
      "map_of ad (output_key (qa_chain self)) = None"
      "call self inputs tr
         = (Inl (KeyError (output_key (qa_chain self))), tr @ pre @ new_e @ post)"
  | (Answered) prompt q qv rows pre new_e ad a post where
      "executions pre = []" "repairs pre = []" "answers pre = []"
      "map_of inputs (input_key self) = Some prompt"
      "execute_query self q (get_schema (graph self) tr) (tr @ pre)
         = (Inr (qv, rows), (tr @ pre) @ new_e)"
      "executions post = []" "repairs post = []"
      "answers post
         = [([(''prompt'', prompt), (''context'', query_results_to_json rows)], Inr ad)]"
      "map_of ad (output_key (qa_chain self)) = Some a"
      "call self inputs tr
         = (Inr (AList.update (output_key_generated_sparql self) qv
                   [(output_key_answer self, a)]),
            tr @ pre @ new_e @ post)"
proof (cases "map_of inputs (input_key self)")
  case None
  then show ?thesis
    using NoQuery [of "[]" "KeyError (input_key self)"]
    by (simp add: call_def subscript_def)
next
  case question: (Some prompt)
  let ?schema = "get_schema (graph self) tr"
  let ?gen_args = "[(''prompt'', prompt), (''schema'', ?schema)]"
  let ?tr1 = "tr @ [OnText ''User question:'', OnText prompt]"
  let ?g = "invoke (sparql_generation_chain self) ?tr1 ?gen_args"
  let ?pre = "[OnText ''User question:'', OnText prompt, Invoke Generation ?gen_args ?g]"
  show ?thesis
  proof (cases ?g)
    case (Inl e)
    with question show ?thesis
      using NoQuery [of ?pre "Raised e"]
      by (simp add: call_def subscript_def on_text_def Let_def)
  next
    case gen: (Inr gd)
    show ?thesis
    proof (cases "map_of gd (output_key (sparql_generation_chain self))")
      case None
      with question gen show ?thesis
        using NoQuery [of ?pre "KeyError (output_key (sparql_generation_chain self))"]
        by (simp add: call_def subscript_def on_text_def Let_def)
    next
      case query: (Some q)
      obtain r new_e where
        run: "execute_query self q ?schema (tr @ ?pre) = (r, (tr @ ?pre) @ new_e)"
        using execute_query_prefix [of self q ?schema "tr @ ?pre"]
        by (metis prod.collapse)
      show ?thesis
      proof (cases r)
        case (Inl sx)
        obtain site x where sx: "sx = (site, x)" by (cases sx)
        with Inl run question gen query show ?thesis
          using ExecRaises [of ?pre q site x new_e]
          by (simp add: call_def subscript_def on_text_def Let_def)
      next
        case (Inr qr)
        obtain qv rows where qr: "qr = (qv, rows)" by (cases qr)
        let ?json = "query_results_to_json rows"
        let ?qa_args = "[(''prompt'', prompt), (''context'', ?json)]"
        let ?tr4 = "tr @ ?pre @ new_e @ [OnText ''Query results:'', OnText ?json]"
        let ?a = "invoke (qa_chain self) ?tr4 ?qa_args"
        let ?post = "[OnText ''Query results:'', OnText ?json, Invoke Answer ?qa_args ?a]"
        show ?thesis
        proof (cases ?a)
          case (Inl e)
          with Inr qr run question gen query show ?thesis
            using AnswerFails [of ?pre q qv rows new_e ?post ?qa_args e]
            by (simp add: call_def subscript_def on_text_def Let_def)
        next
          case ans: (Inr ad)
          show ?thesis
          proof (cases "map_of ad (output_key (qa_chain self))")
            case None
            with ans Inr qr run question gen query show ?thesis
              using AnswerNoKey [of ?pre q qv rows new_e ?post ?qa_args ad]
              by (simp add: call_def subscript_def on_text_def Let_def)
          next
            case (Some a)
            let ?fin = "OnText (''Finished chain for ''
                         @ elapsed self (tr @ ?pre @ new_e @ ?post) @ '' seconds'')"
            from Some ans Inr qr run question gen query show ?thesis
              using Answered [of ?pre prompt q qv rows new_e "?post @ [?fin]" ad a]
              by (simp add: call_def subscript_def on_text_def Let_def)
          qed
        qed
      qed
    qed
  qed
qed

lemma call_prefix: "\<exists>new. snd (call self inputs tr) = tr @ new"
  by (cases rule: call_cases [of self inputs tr]) simp_all

lemma events_added_run [simp]: "events_added tr (res, tr @ new) = new"
  by (simp add: events_added_def)

lemma execute_query_events_added:
  "execute_query self q s tr
     = (fst (execute_query self q s tr), tr @ events_added tr (execute_query self q s tr))"
  using execute_query_prefix [of self q s tr]
  by (auto simp: events_added_def prod_eq_iff)

lemma call_events_added:
  "call self inputs tr
     = (fst (call self inputs tr), tr @ events_added tr (call self inputs tr))"
  using call_prefix [of self inputs tr]
  by (auto simp: events_added_def prod_eq_iff)

lemma call_exec_bound:
  assumes "call self inputs tr = (res, tr @ new)"
  shows "exec_calls new \<le> nat (max_fix_retries self) + 1
       \<and> fix_calls new \<le> nat (max_fix_retries self)"
proof (cases rule: call_cases [of self inputs tr])
  case (NoQuery x pre)
  with assms show ?thesis by (auto simp: exec_calls_def fix_calls_def)
next
  case (ExecRaises q site x pre new_e)
  from execute_query_invariants [OF ExecRaises(4)] ExecRaises(1,2,5) assms show ?thesis
    by (auto simp: exec_calls_def fix_calls_def)
next
  case (AnswerFails q qv rows pre new_e qa_args e post)
  from execute_query_invariants [OF AnswerFails(4)] AnswerFails(1,2,5,6,8) assms show ?thesis
    by (auto simp: exec_calls_def fix_calls_def)
next
  case (AnswerNoKey q qv rows pre new_e qa_args ad post)
  from execute_query_invariants [OF AnswerNoKey(4)] AnswerNoKey(1,2,5,6,9) assms show ?thesis
    by (auto simp: exec_calls_def fix_calls_def)
next
  case (Answered prompt q qv rows pre new_e ad a post)
  from execute_query_invariants [OF Answered(5)] Answered(1,2,6,7,10) assms show ?thesis
    by (auto simp: exec_calls_def fix_calls_def)
qed

lemma repair_loop_exit_is_safety_net:
  "max_fix_retries self < retries \<Longrightarrow>
   repair_loop self s retries m q tr
     = (Inl (SafetyNet, BareException), tr @ [OnText ''Unable to execute query''])"
  by (subst repair_loop.simps) (simp add: on_text_def)

subsection \<open>An endpoint that rejects every query\<close>






subsection \<open>The result formatter\<close>

lemma comprehension_flatten_rows: "[[(k, v_value v)]. d \<leftarrow> rows, (k, v) \<leftarrow> d] = flatten_rows rows"
  by (induction rows) (simp_all add: single_entry_def case_prod_unfold)

text \<open>
  Claim C4. For every result set, \<^verbatim>\<open>query_results_to_json\<close> returns the JSON text of
  the flat sequence that has one single-entry mapping \<open>{variable: value}\<close> per binding, in
  row order and, within a row, in binding order: every element of the sequence has one
  entry, and the entries in sequence are the bindings of the rows in sequence. The bindings
  \<^verbatim>\<open>[{"a": "1", "b": "2"}]\<close> format to \<^verbatim>\<open>[{"a": "1"}, {"b": "2"}]\<close> and not to the
  row-grouped text.
\<close>

theorem query_results_to_json_flattens:
  "query_results_to_json rs = json_dumps (flatten_rows (bindings rs))
   \<and> map length (flatten_rows (bindings rs)) = replicate (length (concat (bindings rs))) 1
   \<and> concat (flatten_rows (bindings rs))
       = map (\<lambda>b. (fst b, v_value (snd b))) (concat (bindings rs))
   \<and> query_results_to_json
        \<lparr>bindings = [[(''a'', \<lparr>v_value = ''1''\<rparr>), (''b'', \<lparr>v_value = ''2''\<rparr>)]]\<rparr>
       = ''[{\"a\": \"1\"}, {\"b\": \"2\"}]''
   \<and> query_results_to_json
        \<lparr>bindings = [[(''a'', \<lparr>v_value = ''1''\<rparr>), (''b'', \<lparr>v_value = ''2''\<rparr>)]]\<rparr>
       \<noteq> ''[{\"a\": \"1\", \"b\": \"2\"}]''"
proof -
  have shape: "map length (flatten_rows rows) = replicate (length (concat rows)) 1
             \<and> concat (flatten_rows rows) = map (\<lambda>b. (fst b, v_value (snd b))) (concat rows)"
    for rows :: "(string \<times> binding_value) list list"
  proof (induction rows)
    case Nil
    show ?case by simp
  next
    case (Cons row rows)
    have "map length (map single_entry row) = replicate (length row) 1"
      by (induction row) (simp_all add: single_entry_def)
    moreover have "concat (map single_entry row) = map (\<lambda>b. (fst b, v_value (snd b))) row"
      by (induction row) (simp_all add: single_entry_def)
    ultimately show ?case using Cons by (simp add: replicate_add)
  qed
  have general: "query_results_to_json rs = json_dumps (flatten_rows (bindings rs))"
    by (simp add: query_results_to_json_def comprehension_flatten_rows)
  have example: "json_dumps (flatten_rows [[(''a'', \<lparr>v_value = ''1''\<rparr>), (''b'', \<lparr>v_value = ''2''\<rparr>)]])
       = ''[{\"a\": \"1\"}, {\"b\": \"2\"}]''"
    by (simp add: json_dumps_def dumps_dict_def dumps_item_def single_entry_def
        encode_basestring_ascii_def escape_char_def)
  show ?thesis
    using shape [of "bindings rs"] general example
    by (simp add: query_results_to_json_def comprehension_flatten_rows)
qed

text \<open>
  Claim C9. Formatting is a function of the bindings alone: two formatting runs over the
  same bindings, whatever else the result objects carry, give identical strings. In
  particular formatting the same result set twice gives byte-identical output.
\<close>

theorem query_results_to_json_deterministic:
  fixes r1 :: "'a query_result_scheme" and r2 :: "'b query_result_scheme"
  assumes "bindings r1 = bindings r2"
  shows "query_results_to_json r1 = query_results_to_json r2"
  using assms by (simp add: query_results_to_json_def)

theorem query_results_to_json_deterministic_witness:
  "bindings \<lparr>bindings = [[(''a'', \<lparr>v_value = ''1''\<rparr>)]]\<rparr>
     = bindings \<lparr>bindings = [[(''a'', \<lparr>v_value = ''1''\<rparr>)]], \<dots> = ''head''\<rparr>
   \<and> query_results_to_json \<lparr>bindings = [[(''a'', \<lparr>v_value = ''1''\<rparr>)]]\<rparr>
     = query_results_to_json \<lparr>bindings = [[(''a'', \<lparr>v_value = ''1''\<rparr>)]], \<dots> = ''head''\<rparr>
   \<and> query_results_to_json \<lparr>bindings = [[(''a'', \<lparr>v_value = ''1''\<rparr>)]]\<rparr> = ''[{\"a\": \"1\"}]''"
  using query_results_to_json_deterministic
          [of "\<lparr>bindings = [[(''a'', \<lparr>v_value = ''1''\<rparr>)]]\<rparr>"
              "\<lparr>bindings = [[(''a'', \<lparr>v_value = ''1''\<rparr>)]], \<dots> = ''head''\<rparr>"]
  by (simp add: query_results_to_json_def json_dumps_def dumps_dict_def dumps_item_def
        encode_basestring_ascii_def escape_char_def)

subsection \<open>The repair budget\<close>



text \<open>
  Claim C2. When the endpoint answers the first execution with a failure of any class
  other than \<^verbatim>\<open>QueryBadFormed\<close> (\<^verbatim>\<open>Unauthorized\<close>, \<^verbatim>\<open>EndPointNotFound\<close>,
  \<^verbatim>\<open>URITooLong\<close>, \<^verbatim>\<open>EndPointInternalError\<close>, another \<^verbatim>\<open>HTTPError\<close>, or anything
  else), that same failure leaves \<^verbatim>\<open>_execute_query\<close>, re-raised by its clause or
  uncaught; the run consists of that one execution and at most one progress message, and
  the repair chain is not invoked, whatever \<open>max_fix_retries\<close> is.
\<close>

theorem other_failure_propagates_without_repair:
  assumes "exec_query (graph self) (tr @ [OnText ''Generated query:'', OnText q]) q = Inl e"
    and "cls e \<noteq> QueryBadFormed"
  shows "(fst (execute_query self q s tr) = Inl (HandlerReraise, Raised e)
          \<or> fst (execute_query self q s tr) = Inl (Propagated, Raised e))
       \<and> executions (events_added tr (execute_query self q s tr)) = [(q, Inl e)]
       \<and> exec_calls (events_added tr (execute_query self q s tr)) = 1
       \<and> fix_calls (events_added tr (execute_query self q s tr)) = 0
       \<and> (\<exists>log. snd (execute_query self q s tr)
                  = tr @ [OnText ''Generated query:'', OnText q, ExecQuery q (Inl e)] @ log
                \<and> length log \<le> 1)"
  using assms
  by (cases "cls e")
     (simp_all add: execute_query_def on_text_def events_added_def exec_calls_def fix_calls_def)

theorem other_failure_propagates_without_repair_witness:
  "exec_query (graph (example_chain (failing_graph (Failure Unauthorized ''denied''))
                        appending_chain 5))
       ([] @ [OnText ''Generated query:'', OnText ''Q'']) ''Q''
     = Inl (Failure Unauthorized ''denied'')
   \<and> cls (Failure Unauthorized ''denied'') \<noteq> QueryBadFormed
   \<and> execute_query (example_chain (failing_graph (Failure Unauthorized ''denied''))
                      appending_chain 5) ''Q'' ''S'' []
       = (Inl (HandlerReraise, Raised (Failure Unauthorized ''denied'')),
          [OnText ''Generated query:'', OnText ''Q'',
           ExecQuery ''Q'' (Inl (Failure Unauthorized ''denied'')),
           OnText ''Unauthorized (status code 401): denied''])
   \<and> fix_calls (events_added []
         (execute_query (example_chain (failing_graph (Failure Unauthorized ''denied''))
                           appending_chain 5) ''Q'' ''S'' [])) = 0"
proof -
  let ?e = "Failure Unauthorized ''denied''"
  let ?self = "example_chain (failing_graph ?e) appending_chain 5"
  have raised: "exec_query (graph ?self) ([] @ [OnText ''Generated query:'', OnText ''Q'']) ''Q''
                  = Inl ?e"
    by (simp add: example_chain_def failing_graph_def)
  have other: "cls ?e \<noteq> QueryBadFormed"
    by simp
  have run: "execute_query ?self ''Q'' ''S'' []
               = (Inl (HandlerReraise, Raised ?e),
                  [OnText ''Generated query:'', OnText ''Q'', ExecQuery ''Q'' (Inl ?e),
                   OnText ''Unauthorized (status code 401): denied''])"
    by code_simp
  from other_failure_propagates_without_repair [OF raised other, of "''S''"]
  have "fix_calls (events_added [] (execute_query ?self ''Q'' ''S'' [])) = 0"
    by blast
  with raised other run show ?thesis
    by blast
qed

text \<open>
  Claim C3. When the endpoint answers the first execution with a result set,
  \<^verbatim>\<open>_execute_query\<close> returns the generated query, unchanged, with that result set; the
  run consists of the announcement and that one execution, and the repair chain is not
  invoked.
\<close>

theorem first_success_returns_without_repair:
  assumes "exec_query (graph self) (tr @ [OnText ''Generated query:'', OnText q]) q = Inr rows"
  shows "execute_query self q s tr
           = (Inr (q, rows),
              tr @ [OnText ''Generated query:'', OnText q, ExecQuery q (Inr rows)])
       \<and> fix_calls (events_added tr (execute_query self q s tr)) = 0
       \<and> exec_calls (events_added tr (execute_query self q s tr)) = 1"
  using assms
  by (simp add: execute_query_def on_text_def events_added_def exec_calls_def fix_calls_def)

theorem first_success_returns_without_repair_witness:
  "exec_query (graph (example_chain
                        (accepting_graph ''Q'' \<lparr>bindings = [[(''n'', \<lparr>v_value = ''7''\<rparr>)]]\<rparr>)
                        appending_chain 5))
       ([] @ [OnText ''Generated query:'', OnText ''Q'']) ''Q''
     = Inr \<lparr>bindings = [[(''n'', \<lparr>v_value = ''7''\<rparr>)]]\<rparr>
   \<and> execute_query (example_chain
                      (accepting_graph ''Q'' \<lparr>bindings = [[(''n'', \<lparr>v_value = ''7''\<rparr>)]]\<rparr>)
                      appending_chain 5) ''Q'' ''S'' []
       = (Inr (''Q'', \<lparr>bindings = [[(''n'', \<lparr>v_value = ''7''\<rparr>)]]\<rparr>),
          [] @ [OnText ''Generated query:'', OnText ''Q'',
                ExecQuery ''Q'' (Inr \<lparr>bindings = [[(''n'', \<lparr>v_value = ''7''\<rparr>)]]\<rparr>)])"
proof -
  let ?rows = "\<lparr>bindings = [[(''n'', \<lparr>v_value = ''7''\<rparr>)]]\<rparr>"
  let ?self = "example_chain (accepting_graph ''Q'' ?rows) appending_chain 5"
  have ok: "exec_query (graph ?self) ([] @ [OnText ''Generated query:'', OnText ''Q'']) ''Q''
              = Inr ?rows"
    by (simp add: example_chain_def accepting_graph_def)
  from first_success_returns_without_repair [OF ok, of "''S''"] ok show ?thesis
    by blast
qed





text \<open>
  Claim C7. \<^verbatim>\<open>_execute_query\<close> always ends: its loop is the total function
  \<open>repair_loop\<close>, whose recursion decreases \<open>max_fix_retries + 1 - retries\<close>, and a run
  extends the trace by finitely many events. In a run the repair chain is invoked at most
  \<open>max_fix_retries\<close> times and the endpoint at most \<open>max_fix_retries + 1\<close> times,
  whatever the collaborators answer; the queries executed are the initial query followed
  by the repaired queries, so at most \<open>max_fix_retries + 1\<close> distinct candidate queries
  exist. The bound on executions holds for a whole request as well. (A negative
  \<open>max_fix_retries\<close> counts as 0.)
\<close>

theorem repair_loop_terminates_within_budget:
  "snd (execute_query self q s tr) = tr @ events_added tr (execute_query self q s tr)
   \<and> fix_calls (events_added tr (execute_query self q s tr)) \<le> nat (max_fix_retries self)
   \<and> exec_calls (events_added tr (execute_query self q s tr)) \<le> nat (max_fix_retries self) + 1
   \<and> map fst (executions (events_added tr (execute_query self q s tr)))
       = q # repaired_queries self (events_added tr (execute_query self q s tr))
   \<and> card (set (q # repaired_queries self (events_added tr (execute_query self q s tr))))
       \<le> nat (max_fix_retries self) + 1
   \<and> exec_calls (events_added tr (call self inputs tr)) \<le> nat (max_fix_retries self) + 1"
proof -
  let ?new = "events_added tr (execute_query self q s tr)"
  note run = execute_query_events_added [of self q s tr]
  from execute_query_invariants [OF run]
  have inv: "fix_calls ?new \<le> nat (max_fix_retries self)"
    "exec_calls ?new \<le> fix_calls ?new + 1"
    "map fst (executions ?new) = q # repaired_queries self ?new"
    by blast+
  from inv(3) have "length (q # repaired_queries self ?new) = exec_calls ?new"
    by (metis exec_calls_def length_map)
  with inv(1,2) have "length (q # repaired_queries self ?new) \<le> nat (max_fix_retries self) + 1"
    by linarith
  then have "card (set (q # repaired_queries self ?new)) \<le> nat (max_fix_retries self) + 1"
    using card_length [of "q # repaired_queries self ?new"] by linarith
  moreover have "snd (execute_query self q s tr) = tr @ ?new"
    using run by (metis snd_conv)
  moreover have "exec_calls (events_added tr (call self inputs tr)) \<le> nat (max_fix_retries self) + 1"
    using call_exec_bound [OF call_events_added [of self inputs tr]] by blast
  ultimately show ?thesis
    using inv by linarith
qed

text \<open>
  Claim C8. The final \<^verbatim>\<open>raise Exception\<close> of \<^verbatim>\<open>_execute_query\<close> is never reached:
  whatever the inputs and the collaborators do, a call returns a pair or raises from the
  \<^verbatim>\<open>try\<close> statement, never from the last line.
\<close>

theorem safety_net_unreachable:
  "fst (execute_query self q s tr) \<noteq> Inl (SafetyNet, x)"
  using execute_query_invariants [OF execute_query_events_added [of self q s tr]] by blast

subsection \<open>Failures of the repair chain\<close>

text \<open>
  Claim C10, as stated, fails. The inner \<^verbatim>\<open>try\<close> block encloses the invocation of the
  repair chain, so a \<^verbatim>\<open>QueryBadFormed\<close> raised by the invocation itself is caught by the
  inner clause and counted like a malformed execution: with a budget of 2 and a repair
  chain that raises \<^verbatim>\<open>QueryBadFormed\<close>, the chain is invoked twice and the failure leaves
  from the \<^verbatim>\<open>raise\<close> inside the loop.
\<close>

theorem repair_chain_malformed_failure_is_retried:
  "execute_query
     (example_chain rejecting_graph (raising_chain (Failure QueryBadFormed ''oops'')) 2)
     ''Q'' ''S'' []
   = (Inl (BudgetExhausted, Raised (Failure QueryBadFormed ''oops'')),
      [OnText ''Generated query:'', OnText ''Q'',
       ExecQuery ''Q'' (Inl (Failure QueryBadFormed ''bad: Q'')),
       OnText ''QueryBadFormed (status code 400): bad: Q'',
       OnText ''Retrying to generate the query 1/2'',
       Invoke Fix [(''error_message'', ''bad: Q''), (''generated_sparql'', ''Q''),
                   (''schema'', ''S'')]
         (Inl (Failure QueryBadFormed ''oops'')),
       OnText ''QueryBadFormed (status code 400): oops'',
       OnText ''Retrying to generate the query 2/2'',
       Invoke Fix [(''error_message'', ''oops''), (''generated_sparql'', ''Q''),
                   (''schema'', ''S'')]
         (Inl (Failure QueryBadFormed ''oops'')),
       OnText ''QueryBadFormed (status code 400): oops''])
   \<and> fix_calls
        (snd (execute_query
                (example_chain rejecting_graph (raising_chain (Failure QueryBadFormed ''oops'')) 2)
                ''Q'' ''S'' [])) = 2
   \<and> fst (execute_query
            (example_chain rejecting_graph (raising_chain (Failure QueryBadFormed ''oops'')) 2)
            ''Q'' ''S'' [])
       \<noteq> Inl (Propagated, Raised (Failure QueryBadFormed ''oops''))"
  by code_simp

text \<open>
  Claim C10, amended. When an invocation of the repair chain raises a failure of any class
  other than \<^verbatim>\<open>QueryBadFormed\<close>, that failure leaves \<^verbatim>\<open>_execute_query\<close> uncaught by
  any clause, and the invocation is the last event of the run: no further repair or
  execution is attempted.
\<close>

theorem repair_chain_failure_propagates:
  assumes "execute_query self q s tr = (res, tr @ new)"
    and "(args, Inl e) \<in> set (repairs new)"
    and "cls e \<noteq> QueryBadFormed"
  shows "res = Inl (Propagated, Raised e) \<and> last new = Invoke Fix args (Inl e)"
  using execute_query_fix_failure [OF assms] .

theorem repair_chain_failure_propagates_witness:
  "execute_query
      (example_chain rejecting_graph (raising_chain (Failure OtherException ''timeout'')) 2)
      ''Q'' ''S'' []
     = (Inl (Propagated, Raised (Failure OtherException ''timeout'')),
        [] @ [OnText ''Generated query:'', OnText ''Q'',
              ExecQuery ''Q'' (Inl (Failure QueryBadFormed ''bad: Q'')),
              OnText ''QueryBadFormed (status code 400): bad: Q'',
              OnText ''Retrying to generate the query 1/2'',
              Invoke Fix [(''error_message'', ''bad: Q''), (''generated_sparql'', ''Q''),
                          (''schema'', ''S'')]
                (Inl (Failure OtherException ''timeout''))])
   \<and> ([(''error_message'', ''bad: Q''), (''generated_sparql'', ''Q''), (''schema'', ''S'')],
       Inl (Failure OtherException ''timeout''))
       \<in> set (repairs
             [OnText ''Generated query:'', OnText ''Q'',
              ExecQuery ''Q'' (Inl (Failure QueryBadFormed ''bad: Q'')),
              OnText ''QueryBadFormed (status code 400): bad: Q'',
              OnText ''Retrying to generate the query 1/2'',
              Invoke Fix [(''error_message'', ''bad: Q''), (''generated_sparql'', ''Q''),
                          (''schema'', ''S'')]
                (Inl (Failure OtherException ''timeout''))])
   \<and> cls (Failure OtherException ''timeout'') \<noteq> QueryBadFormed
   \<and> fix_calls
         [OnText ''Generated query:'', OnText ''Q'',
          ExecQuery ''Q'' (Inl (Failure QueryBadFormed ''bad: Q'')),
          OnText ''QueryBadFormed (status code 400): bad: Q'',
          OnText ''Retrying to generate the query 1/2'',
          Invoke Fix [(''error_message'', ''bad: Q''), (''generated_sparql'', ''Q''),
                      (''schema'', ''S'')]
            (Inl (Failure OtherException ''timeout''))] = 1"
proof -
  let ?self = "example_chain rejecting_graph (raising_chain (Failure OtherException ''timeout'')) 2"
  let ?args = "[(''error_message'', ''bad: Q''), (''generated_sparql'', ''Q''), (''schema'', ''S'')]"
  let ?new = "[OnText ''Generated query:'', OnText ''Q'',
               ExecQuery ''Q'' (Inl (Failure QueryBadFormed ''bad: Q'')),
               OnText ''QueryBadFormed (status code 400): bad: Q'',
               OnText ''Retrying to generate the query 1/2'',
               Invoke Fix ?args (Inl (Failure OtherException ''timeout''))]"
  have run: "execute_query ?self ''Q'' ''S'' []
               = (Inl (Propagated, Raised (Failure OtherException ''timeout'')), [] @ ?new)"
    by code_simp
  have mem: "(?args, Inl (Failure OtherException ''timeout'')) \<in> set (repairs ?new)"
    by simp
  have other: "cls (Failure OtherException ''timeout'') \<noteq> QueryBadFormed"
    by simp
  from repair_chain_failure_propagates [OF run mem other]
  have "last ?new = Invoke Fix ?args (Inl (Failure OtherException ''timeout''))" by blast
  moreover have "fix_calls ?new = 1" by (simp add: fix_calls_def)
  ultimately show ?thesis using run mem other by blast
qed

end
